theory Spec2Isabelle
  imports Main
begin

section \<open>Data model of \<open>VideoRecorder.tsx\<close>\<close>

text \<open>
  The component \<open>VideoFrameExtractor\<close> keeps its data in React state and refs. The model
  passes that state explicitly. Frame ids are JavaScript numbers that only ever hold
  natural numbers (exact below \<open>2^53\<close>); they are modelled as \<open>nat\<close>. A \<open>Date\<close> is its
  time value, the milliseconds since the epoch, an \<open>int\<close>.
\<close>

datatype eye = OD | OE

record Frame =
  frame_id :: nat
  uri :: string
  fileName :: string
  takenAt :: int
  selected :: bool
  eyeSide :: eye

text \<open>
  The media element, as far as the component reads or writes it: the loaded source, the
  \<open>paused\<close> and \<open>ended\<close> attributes and the \<open>muted\<close> flag. The canvas is reduced to
  whether \<open>getContext("2d")\<close> answers a context.
\<close>

record video =
  src :: "string option"
  paused :: bool
  ended :: bool
  muted :: bool

record canvas =
  context2d :: bool

text \<open>
  The state of the component: the two element refs, \<open>frameIntervalRef\<close>,
  \<open>globalFrameId\<close>, and the four \<open>useState\<close> cells (the cell \<open>eyeSide\<close> is named
  \<open>eyeSide_state\<close>, the name \<open>eyeSide\<close> being the field of \<open>Frame\<close>). Two more fields
  stand for the browser: \<open>timers\<close>, the interval timers that are scheduled, each with the
  value of \<open>eyeSide\<close> its callback closed over, and \<open>nextTimerId\<close>, the handle the next
  \<open>window.setInterval\<close> answers (handles are positive integers).
\<close>

record state =
  videoRef :: "video option"
  canvasRef :: "canvas option"
  frameIntervalRef :: "nat option"
  globalFrameId :: nat
  frames :: "Frame list"
  isExtracting :: bool
  videoFile :: "string option"
  eyeSide_state :: eye
  timers :: "(nat \<times> eye) list"
  nextTimerId :: nat

definition init :: state where
  "init = \<lparr> videoRef = Some \<lparr> src = None, paused = True, ended = False, muted = False \<rparr>,
            canvasRef = Some \<lparr> context2d = True \<rparr>,
            frameIntervalRef = None,
            globalFrameId = 0,
            frames = [],
            isExtracting = False,
            videoFile = None,
            eyeSide_state = OD,
            timers = [],
            nextTimerId = 1 \<rparr>"

section \<open>Strings the component builds\<close>

definition eye_code :: "eye \<Rightarrow> string" where
  "eye_code e = (case e of OD \<Rightarrow> ''OD'' | OE \<Rightarrow> ''OE'')"

definition digit_char :: "nat \<Rightarrow> char" where
  "digit_char d = char_of (48 + d)"

text \<open>The decimal numeral of a natural number, as a template literal prints it.\<close>

fun decimal :: "nat \<Rightarrow> string" where
  "decimal n = (if n < 10 then [digit_char n] else decimal (n div 10) @ [digit_char (n mod 10)])"

declare decimal.simps [simp del]

text \<open>\<open>`frame_${globalFrameId.current}_${eyeSide}.png`\<close>\<close>

definition mk_fileName :: "nat \<Rightarrow> eye \<Rightarrow> string" where
  "mk_fileName n e = ''frame_'' @ decimal n @ ''_'' @ eye_code e @ ''.png''"

section \<open>Capture: \<open>extractFrames\<close>, the interval callback, \<open>stopExtracting\<close>\<close>

text \<open>
  \<open>stopExtracting\<close>: the ref is tested for truthiness, so a handle \<open>0\<close> would count as
  absent; \<open>clearInterval\<close> removes the timer with that handle.
\<close>

definition clearInterval :: "nat \<Rightarrow> (nat \<times> eye) list \<Rightarrow> (nat \<times> eye) list" where
  "clearInterval t ts = filter (\<lambda>p. fst p \<noteq> t) ts"

definition stopExtracting :: "state \<Rightarrow> state" where
  "stopExtracting s =
     (let s1 = (case frameIntervalRef s of
                  None \<Rightarrow> s
                | Some t \<Rightarrow>
                    if t \<noteq> 0
                    then s \<lparr> timers := clearInterval t (timers s), frameIntervalRef := None \<rparr>
                    else s)
      in s1 \<lparr> isExtracting := False \<rparr>)"

text \<open>
  The body of the interval callback. Its \<open>eyeSide\<close> is the one \<open>extractFrames\<close> closed
  over, passed here as \<open>e\<close>; \<open>imageSrc\<close> is what \<open>canvas.toDataURL\<close> answers and \<open>now\<close>
  what \<open>new Date()\<close> reads. The frame store and the id counter are read at the tick
  (\<open>setFrames\<close> takes an updater, \<open>globalFrameId\<close> is a ref).
\<close>

definition tick_body :: "eye \<Rightarrow> string \<Rightarrow> int \<Rightarrow> state \<Rightarrow> state" where
  "tick_body e imageSrc now s =
     (case videoRef s of
        None \<Rightarrow> s
      | Some v \<Rightarrow>
          if paused v \<or> ended v then stopExtracting s
          else
            let newFrame = \<lparr> frame_id = globalFrameId s,
                             uri = imageSrc,
                             fileName = mk_fileName (globalFrameId s) e,
                             takenAt = now,
                             selected = False,
                             eyeSide = e \<rparr>
            in s \<lparr> frames := frames s @ [newFrame],
                   globalFrameId := globalFrameId s + 1 \<rparr>)"

text \<open>
  \<open>extractFrames\<close>: two early returns, then the running flag, mute, a new interval
  timer whose callback keeps the current \<open>eyeSide\<close>, and \<open>video.play()\<close>, which leaves the
  element neither paused nor ended.
\<close>

definition extractFrames :: "state \<Rightarrow> state" where
  "extractFrames s =
     (case videoRef s of
        None \<Rightarrow> s
      | Some v \<Rightarrow>
         (case canvasRef s of
            None \<Rightarrow> s
          | Some c \<Rightarrow>
              if \<not> context2d c then s
              else s \<lparr> isExtracting := True,
                       timers := timers s @ [(nextTimerId s, eyeSide_state s)],
                       frameIntervalRef := Some (nextTimerId s),
                       nextTimerId := nextTimerId s + 1,
                       videoRef := Some (v \<lparr> muted := True, paused := False, ended := False \<rparr>) \<rparr>))"

section \<open>Frame store: selection and reset\<close>

definition toggleFrameSelection :: "nat \<Rightarrow> state \<Rightarrow> state" where
  "toggleFrameSelection i s =
     s \<lparr> frames := map (\<lambda>frame. if frame_id frame = i
                                 then frame \<lparr> selected := \<not> selected frame \<rparr>
                                 else frame) (frames s) \<rparr>"

text \<open>
  \<open>handleVideoUpload\<close>: with a file, the file is kept, the store is emptied and the
  element gets the new source (loading a source leaves the element paused and not ended).
  The id counter and the timer are not touched.
\<close>

definition handleVideoUpload :: "string option \<Rightarrow> state \<Rightarrow> state" where
  "handleVideoUpload file s =
     (case file of
        None \<Rightarrow> s
      | Some f \<Rightarrow>
          s \<lparr> videoFile := Some f,
              frames := [],
              videoRef := (case videoRef s of
                             None \<Rightarrow> None
                           | Some v \<Rightarrow> Some (v \<lparr> src := Some f, paused := True, ended := False \<rparr>)) \<rparr>)"

definition toggleEyeSide :: "state \<Rightarrow> state" where
  "toggleEyeSide s = s \<lparr> eyeSide_state := (if eyeSide_state s = OD then OE else OD) \<rparr>"

section \<open>Events of a session\<close>

text \<open>
  What can happen to the mounted component: the file input changes, one of the buttons
  is clicked, a thumbnail is clicked, an interval timer fires, or the media element
  changes its \<open>paused\<close> and \<open>ended\<close> attributes by itself (playback reaches the end, the
  browser pauses it). The buttons exist only while \<open>videoFile\<close> is set; the start button
  is \<open>disabled\<close> while \<open>isExtracting\<close>, the stop button while not. A timer that fires
  carries the data URL of the canvas and the clock reading of that moment; a handle that is
  not scheduled does not fire. The download button does not change the state and is not
  an event here; its function is modelled below.
\<close>

datatype event =
    Upload "string option"
  | ClickStart
  | ClickStop
  | ClickEye
  | ClickFrame nat
  | Tick nat string int
  | Media bool bool

definition fire :: "nat \<Rightarrow> string \<Rightarrow> int \<Rightarrow> state \<Rightarrow> state" where
  "fire t imageSrc now s =
     (case map_of (timers s) t of
        None \<Rightarrow> s
      | Some e \<Rightarrow> tick_body e imageSrc now s)"

definition media :: "bool \<Rightarrow> bool \<Rightarrow> state \<Rightarrow> state" where
  "media p e s =
     (case videoRef s of
        None \<Rightarrow> s
      | Some v \<Rightarrow> s \<lparr> videoRef := Some (v \<lparr> paused := p, ended := e \<rparr>) \<rparr>)"

fun step :: "state \<Rightarrow> event \<Rightarrow> state" where
  "step s (Upload file) = handleVideoUpload file s"
| "step s ClickStart = (if videoFile s \<noteq> None \<and> \<not> isExtracting s then extractFrames s else s)"
| "step s ClickStop = (if videoFile s \<noteq> None \<and> isExtracting s then stopExtracting s else s)"
| "step s ClickEye = (if videoFile s \<noteq> None then toggleEyeSide s else s)"
| "step s (ClickFrame i) = toggleFrameSelection i s"
| "step s (Tick t imageSrc now) = fire t imageSrc now s"
| "step s (Media p e) = media p e s"

definition run :: "event list \<Rightarrow> state \<Rightarrow> state" where
  "run es s = foldl step s es"

text \<open>An event captures a frame when it is a timer firing that appends to the store.\<close>

definition captures :: "state \<Rightarrow> event \<Rightarrow> bool" where
  "captures s ev =
     (case ev of
        Tick t imageSrc now \<Rightarrow>
          (case map_of (timers s) t of
             None \<Rightarrow> False
           | Some e \<Rightarrow>
               (case videoRef s of
                  None \<Rightarrow> False
                | Some v \<Rightarrow> \<not> (paused v \<or> ended v)))
      | _ \<Rightarrow> False)"

text \<open>The number of frames captured while a list of events runs from a state.\<close>

fun captured :: "event list \<Rightarrow> state \<Rightarrow> nat" where
  "captured [] s = 0"
| "captured (ev # es) s = (if captures s ev then 1 else 0) + captured es (step s ev)"

definition is_upload :: "event \<Rightarrow> bool" where
  "is_upload ev = (case ev of Upload file \<Rightarrow> True | _ \<Rightarrow> False)"

definition is_start :: "event \<Rightarrow> bool" where
  "is_start ev = (case ev of ClickStart \<Rightarrow> True | _ \<Rightarrow> False)"

section \<open>Export\<close>

subsection \<open>What the platform provides\<close>

text \<open>
  \<open>String.prototype.split\<close> with a one-character separator, and indexing into its
  result, which answers \<open>undefined\<close> (here \<open>None\<close>) beyond the end.
\<close>

fun split_on :: "char \<Rightarrow> string \<Rightarrow> string list" where
  "split_on c [] = [[]]"
| "split_on c (x # xs) =
     (if x = c then [] # split_on c xs
      else (case split_on c xs of [] \<Rightarrow> [[x]] | y # ys \<Rightarrow> (x # y) # ys))"

definition index_opt :: "'a list \<Rightarrow> nat \<Rightarrow> 'a option" where
  "index_opt xs i = (if i < length xs then Some (xs ! i) else None)"

text \<open>
  \<open>Date.prototype.toISOString\<close> of a valid date: \<open>YYYY-MM-DDTHH:mm:ss.sssZ\<close> in UTC, the
  year with a sign and six digits outside \<open>0..9999\<close>. The calendar date comes from the
  day number \<open>z\<close> (days since 1 January 1970) by the usual computation on 400-year eras
  that begin on 1 March: the day of the era, the year of the era, the day of that year
  counted from 1 March, and the month counted from March.
\<close>

definition pad :: "nat \<Rightarrow> nat \<Rightarrow> string" where
  "pad w n = replicate (w - length (decimal n)) (CHR ''0'') @ decimal n"

definition day_of_era :: "int \<Rightarrow> int" where
  "day_of_era z = (z + 719468) mod 146097"

definition year_of_era :: "int \<Rightarrow> int" where
  "year_of_era doe = (doe - doe div 1460 + doe div 36524 - doe div 146096) div 365"

definition day_of_year :: "int \<Rightarrow> int" where
  "day_of_year doe =
     doe - (365 * year_of_era doe + year_of_era doe div 4 - year_of_era doe div 100)"

definition month_from_march :: "int \<Rightarrow> int" where
  "month_from_march doy = (5 * doy + 2) div 153"

definition civil_month :: "int \<Rightarrow> int" where
  "civil_month z =
     (if month_from_march (day_of_year (day_of_era z)) < 10
      then month_from_march (day_of_year (day_of_era z)) + 3
      else month_from_march (day_of_year (day_of_era z)) - 9)"

definition civil_day :: "int \<Rightarrow> int" where
  "civil_day z =
     day_of_year (day_of_era z)
       - (153 * month_from_march (day_of_year (day_of_era z)) + 2) div 5 + 1"

definition civil_year :: "int \<Rightarrow> int" where
  "civil_year z =
     year_of_era (day_of_era z) + ((z + 719468) div 146097) * 400
       + (if civil_month z \<le> 2 then 1 else 0)"

definition iso_year :: "int \<Rightarrow> string" where
  "iso_year y =
     (if 0 \<le> y \<and> y \<le> 9999 then pad 4 (nat y)
      else (if y < 0 then ''-'' else ''+'') @ pad 6 (nat \<bar>y\<bar>))"

definition ms_of_day :: "int \<Rightarrow> nat" where
  "ms_of_day t = nat (t mod 86400000)"

definition toISOString :: "int \<Rightarrow> string" where
  "toISOString t =
     iso_year (civil_year (t div 86400000)) @ ''-'' @
     pad 2 (nat (civil_month (t div 86400000))) @ ''-'' @
     pad 2 (nat (civil_day (t div 86400000))) @ ''T'' @
     pad 2 (ms_of_day t div 3600000) @ '':'' @
     pad 2 (ms_of_day t div 60000 mod 60) @ '':'' @
     pad 2 (ms_of_day t div 1000 mod 60) @ ''.'' @
     pad 3 (ms_of_day t mod 1000) @ ''Z''"

text \<open>
  A JSON value, and the content of a file of the archive: either data handed to the
  archive library as base64 text (\<open>None\<close> when the component hands over \<open>undefined\<close>), or
  the text \<open>JSON.stringify(v, null, 2)\<close> of a value \<open>v\<close>, kept as the value.
\<close>

datatype json =
    JNumber nat
  | JString string
  | JArray "json list"
  | JObject "(string \<times> json) list"

datatype content =
    Base64 "string option"
  | JsonText json

text \<open>
  The archive library, as the component uses it: an archive is a list of top-level
  folders, each a list of named files, and a list of files at the root. \<open>folder\<close> adds a
  folder unless one of that name is there; \<open>file\<close> stores under a name and replaces what
  was stored under it before.
\<close>

record zip =
  folders :: "(string \<times> (string \<times> content) list) list"
  root_files :: "(string \<times> content) list"

definition JSZip_new :: zip where
  "JSZip_new = \<lparr> folders = [], root_files = [] \<rparr>"

primrec file_put :: "string \<Rightarrow> content \<Rightarrow> (string \<times> content) list \<Rightarrow> (string \<times> content) list" where
  "file_put name c [] = [(name, c)]"
| "file_put name c (p # ps) = (if fst p = name then (name, c) # ps else p # file_put name c ps)"

definition zip_folder :: "string \<Rightarrow> zip \<Rightarrow> zip" where
  "zip_folder name z =
     (if name \<in> set (map fst (folders z)) then z
      else z \<lparr> folders := folders z @ [(name, [])] \<rparr>)"

definition folder_file :: "string \<Rightarrow> string \<Rightarrow> content \<Rightarrow> zip \<Rightarrow> zip" where
  "folder_file folder name c z =
     z \<lparr> folders := map (\<lambda>(n, fs). if n = folder then (n, file_put name c fs) else (n, fs))
                         (folders z) \<rparr>"

definition zip_file :: "string \<Rightarrow> content \<Rightarrow> zip \<Rightarrow> zip" where
  "zip_file name c z = z \<lparr> root_files := file_put name c (root_files z) \<rparr>"

text \<open>
  What an export does to the outside: an \<open>alert\<close> (the three messages of the component,
  by what they say), a click on a link with \<open>href\<close> and \<open>download\<close>, or \<open>saveAs\<close> of a
  generated archive under a name.
\<close>

datatype message =
    NoneSelectedAllWillBeDownloaded
  | NoImageAvailable
  | ImagesWillBeDownloaded nat

datatype effect =
    Alert message
  | LinkClick string string
  | SaveAs zip string

subsection \<open>\<open>downloadAllImages\<close> and \<open>downloadSelectedImages\<close>\<close>

text \<open>The export set of \<open>downloadAllImages\<close>: the selected frames if there is one, else all.\<close>

definition framesToDownload :: "Frame list \<Rightarrow> Frame list" where
  "framesToDownload fs =
     (if length (filter selected fs) > 0 then filter selected fs else fs)"

definition downloadAllImages :: "Frame list \<Rightarrow> effect list" where
  "downloadAllImages fs =
     (if length (framesToDownload fs) = 0 then [Alert NoImageAvailable]
      else Alert (ImagesWillBeDownloaded (length (framesToDownload fs))) #
           map (\<lambda>frame. LinkClick (uri frame) (fileName frame)) (framesToDownload fs))"

definition base64Data :: "Frame \<Rightarrow> string option" where
  "base64Data frame = index_opt (split_on (CHR '','') (uri frame)) 1"

definition add_frame :: "zip \<Rightarrow> Frame \<Rightarrow> zip" where
  "add_frame z frame =
     (if eyeSide frame = OD
      then folder_file ''OD'' (fileName frame) (Base64 (base64Data frame)) z
      else folder_file ''OE'' (fileName frame) (Base64 (base64Data frame)) z)"

definition frame_info :: "Frame \<Rightarrow> json" where
  "frame_info frame =
     JObject [(''id'', JNumber (frame_id frame)),
              (''fileName'', JString (fileName frame)),
              (''eyeSide'', JString (eye_code (eyeSide frame))),
              (''takenAt'', JString (toISOString (takenAt frame)))]"

definition downloadSelectedImages :: "Frame list \<Rightarrow> effect list" where
  "downloadSelectedImages fs =
     (let selectedFrames = filter selected fs
      in if length selectedFrames = 0 then [Alert NoneSelectedAllWillBeDownloaded]
         else
           let z0 = zip_folder ''OE'' (zip_folder ''OD'' JSZip_new);
               z1 = foldl add_frame z0 selectedFrames;
               framesInfo = map frame_info selectedFrames;
               z2 = zip_file ''frames_info.json'' (JsonText (JArray framesInfo)) z1
           in [SaveAs z2 ''frames_selecionados.zip''])"

section \<open>Invariants of a session\<close>

text \<open>
  The timer handle, the running flag and the scheduled timers agree: either nothing is
  scheduled, the ref is empty and the flag is off, or exactly the timer of the ref is
  scheduled and the flag is on.
\<close>

definition timer_ok :: "state \<Rightarrow> bool" where
  "timer_ok s =
     (0 < nextTimerId s \<and>
      (case frameIntervalRef s of
         None \<Rightarrow> \<not> isExtracting s \<and> timers s = []
       | Some t \<Rightarrow> isExtracting s \<and> 0 < t \<and> map fst (timers s) = [t]))"

text \<open>
  The frames of the store have increasing ids below the counter, and each has the file
  name made of its own id and eye side.
\<close>

definition frames_ok :: "state \<Rightarrow> bool" where
  "frames_ok s =
     (sorted_wrt (<) (map frame_id (frames s)) \<and>
      list_all (\<lambda>f. frame_id f < globalFrameId s \<and>
                     fileName f = mk_fileName (frame_id f) (eyeSide f)) (frames s))"

text \<open>
  The frames that consecutive captures append, one for each pair of a data URL and a clock
  reading, from the counter value \<open>g\<close> on.
\<close>

fun new_frames :: "eye \<Rightarrow> nat \<Rightarrow> (string \<times> int) list \<Rightarrow> Frame list" where
  "new_frames e g [] = []"
| "new_frames e g ((imageSrc, now) # rest) =
     \<lparr> frame_id = g, uri = imageSrc, fileName = mk_fileName g e, takenAt = now,
       selected = False, eyeSide = e \<rparr> # new_frames e (g + 1) rest"

text \<open>
  The files a folder of the archive is expected to hold for a list of frames: for each
  frame of that eye side, in order, its file name with its image data. \<open>put_frame\<close> is
  one \<open>file\<close> call on the list of files of a folder.
\<close>

definition frame_entry :: "Frame \<Rightarrow> string \<times> content" where
  "frame_entry frame = (fileName frame, Base64 (base64Data frame))"

definition folder_entries :: "eye \<Rightarrow> Frame list \<Rightarrow> (string \<times> content) list" where
  "folder_entries e fs = map frame_entry (filter (\<lambda>frame. eyeSide frame = e) fs)"

definition put_frame :: "(string \<times> content) list \<Rightarrow> Frame \<Rightarrow> (string \<times> content) list" where
  "put_frame files frame = file_put (fileName frame) (Base64 (base64Data frame)) files"

text \<open>
  Three sessions used as examples: one captures a frame of each eye side (capture is
  stopped, the eye side is switched, capture is started again) and selects both; one
  captures two \<open>OD\<close> frames and selects the second; one captures a single \<open>OE\<close> frame and
  selects it.
\<close>

definition two_eye_session :: "event list" where
  "two_eye_session =
     [Upload (Some ''v.mp4''), ClickStart,
      Tick 1 ''data:image/png;base64,iVBORw0KGgo='' 1700000000000,
      ClickStop, ClickEye, ClickStart,
      Tick 2 ''data:image/png;base64,AAAA'' 1700000000500,
      ClickFrame 0, ClickFrame 1]"

definition one_eye_session :: "event list" where
  "one_eye_session =
     [Upload (Some ''v.mp4''), ClickStart,
      Tick 1 ''data:image/png;base64,iVBORw0KGgo='' 1700000000000,
      Tick 1 ''data:image/png;base64,AAAA'' 1700000000500,
      ClickFrame 1]"

definition other_eye_session :: "event list" where
  "other_eye_session =
     [Upload (Some ''v.mp4''), ClickEye, ClickStart,
      Tick 1 ''data:image/png;base64,iVBORw0KGgo='' 1700000000000,
      ClickFrame 0]"

section \<open>File names\<close>

lemma decimal_nonempty: "decimal n \<noteq> []"
  by (subst decimal.simps) simp

lemma digit_char_inj: "a < 10 \<Longrightarrow> b < 10 \<Longrightarrow> digit_char a = digit_char b \<Longrightarrow> a = b"
  by (simp add: digit_char_def char_of_eq_iff take_bit_nat_eq_self)

lemma decimal_small: "n < 10 \<Longrightarrow> decimal n = [digit_char n]"
  by (subst decimal.simps) simp

lemma decimal_large: "\<not> n < 10 \<Longrightarrow> decimal n = decimal (n div 10) @ [digit_char (n mod 10)]"
  by (subst decimal.simps) simp

lemma decimal_inj: "decimal n = decimal m \<Longrightarrow> n = m"
proof (induction n arbitrary: m rule: decimal.induct)
  case (1 n)
  show ?case
  proof (cases "n < 10")
    case small_n: True
    show ?thesis
    proof (cases "m < 10")
      case True
      with small_n "1.prems" show ?thesis
        by (simp add: decimal_small digit_char_inj)
    next
      case False
      with small_n "1.prems" show ?thesis
        by (simp add: decimal_small decimal_large decimal_nonempty [symmetric])
    qed
  next
    case large_n: False
    show ?thesis
    proof (cases "m < 10")
      case True
      with large_n "1.prems" show ?thesis
        by (simp add: decimal_small decimal_large decimal_nonempty)
    next
      case False
      with large_n "1.prems" have q: "decimal (n div 10) = decimal (m div 10)"
        and r: "digit_char (n mod 10) = digit_char (m mod 10)"
        by (simp_all add: decimal_large)
      from "1.IH" [OF large_n q] have "n div 10 = m div 10" .
      moreover from r have "n mod 10 = m mod 10"
        by (simp add: digit_char_inj)
      ultimately show ?thesis
        by (metis div_mult_mod_eq)
    qed
  qed
qed

text \<open>Frames with different ids have different file names, whatever their eye sides.\<close>

lemma mk_fileName_inj: "mk_fileName n e = mk_fileName m e' \<Longrightarrow> n = m"
proof -
  assume eq: "mk_fileName n e = mk_fileName m e'"
  have len: "length (''_'' @ eye_code e @ ''.png'') = length (''_'' @ eye_code e' @ ''.png'')"
    by (cases e; cases e') (simp_all add: eye_code_def)
  from eq have "decimal n @ (''_'' @ eye_code e @ ''.png'') = decimal m @ (''_'' @ eye_code e' @ ''.png'')"
    by (simp add: mk_fileName_def)
  with len have "decimal n = decimal m"
    using append_eq_append_conv by blast
  then show ?thesis by (rule decimal_inj)
qed

section \<open>Runs and their invariants\<close>

lemma run_Nil [simp]: "run [] s = s"
  by (simp add: run_def)

lemma run_Cons [simp]: "run (ev # es) s = run es (step s ev)"
  by (simp add: run_def)

lemma run_append: "run (es @ es') s = run es' (run es s)"
  by (simp add: run_def)

lemma timer_ok_init: "timer_ok init"
  by (simp add: timer_ok_def init_def)

lemma timer_ok_stop: "timer_ok s \<Longrightarrow> timer_ok (stopExtracting s)"
  by (auto simp: timer_ok_def stopExtracting_def clearInterval_def Let_def split: option.splits)

lemma timer_ok_step: "timer_ok s \<Longrightarrow> timer_ok (step s ev)"
proof (cases ev)
  case (Tick t imageSrc now)
  assume ok: "timer_ok s"
  have "timer_ok (tick_body e imageSrc now s)" for e
    using ok timer_ok_stop [OF ok]
    by (auto simp: tick_body_def Let_def timer_ok_def split: option.splits)
  with ok Tick show ?thesis
    by (simp add: fire_def split: option.splits)
next
  case ClickStop
  assume "timer_ok s"
  with ClickStop show ?thesis by (simp add: timer_ok_stop)
qed (auto simp: timer_ok_def handleVideoUpload_def extractFrames_def toggleEyeSide_def
       toggleFrameSelection_def media_def split: option.splits)

lemma timer_ok_run: "timer_ok s \<Longrightarrow> timer_ok (run es s)"
  by (induction es arbitrary: s) (simp_all add: timer_ok_step)

lemma frames_ok_init: "frames_ok init"
  by (simp add: frames_ok_def init_def)

lemma frames_ok_step: "frames_ok s \<Longrightarrow> frames_ok (step s ev)"
proof (cases ev)
  case (Tick t imageSrc now)
  assume ok: "frames_ok s"
  have "frames_ok (tick_body e imageSrc now s)" for e
    using ok
    by (auto simp: tick_body_def Let_def frames_ok_def stopExtracting_def sorted_wrt_append
          list_all_iff elim: less_trans split: option.splits)
  with ok Tick show ?thesis
    by (simp add: fire_def split: option.splits)
next
  case (ClickFrame i)
  assume ok: "frames_ok s"
  have ids: "frame_id \<circ> (\<lambda>frame. if frame_id frame = i
              then frame \<lparr> selected := \<not> selected frame \<rparr> else frame) = frame_id"
    by (rule ext) simp
  from ok ClickFrame show ?thesis
    by (auto simp: frames_ok_def toggleFrameSelection_def ids list_all_iff)
qed (auto simp: frames_ok_def handleVideoUpload_def extractFrames_def toggleEyeSide_def
       stopExtracting_def media_def Let_def split: option.splits)

lemma frames_ok_run: "frames_ok s \<Longrightarrow> frames_ok (run es s)"
  by (induction es arbitrary: s) (simp_all add: frames_ok_step)

lemma frames_ok_distinct_names: "frames_ok s \<Longrightarrow> distinct (map fileName (frames s))"
proof -
  assume ok: "frames_ok s"
  then have "distinct (map frame_id (frames s))"
    by (simp add: frames_ok_def strict_sorted_iff)
  then have d: "distinct (frames s)"
    by (simp add: distinct_map)
  have "inj_on fileName (set (frames s))"
  proof (rule inj_onI)
    fix f g
    assume f: "f \<in> set (frames s)" and g: "g \<in> set (frames s)" and eq: "fileName f = fileName g"
    from ok f g eq have "mk_fileName (frame_id f) (eyeSide f) = mk_fileName (frame_id g) (eyeSide g)"
      by (simp add: frames_ok_def list_all_iff)
    then have "frame_id f = frame_id g" by (rule mk_fileName_inj)
    with \<open>distinct (map frame_id (frames s))\<close> f g show "f = g"
      by (meson distinct_map inj_onD)
  qed
  with d show ?thesis by (simp add: distinct_map)
qed

lemma timer_ok_reachable: "timer_ok (run es init)"
  by (rule timer_ok_run [OF timer_ok_init])

lemma frames_ok_reachable: "frames_ok (run es init)"
  by (rule frames_ok_run [OF frames_ok_init])

lemma timer_ok_at_most_one: "timer_ok s \<Longrightarrow> length (timers s) \<le> 1"
proof -
  assume "timer_ok s"
  then have "length (map fst (timers s)) \<le> 1"
    by (auto simp: timer_ok_def split: option.splits)
  then show ?thesis by simp
qed

lemma timer_ok_scheduled:
  assumes "timer_ok s" and "map_of (timers s) t = Some e"
  shows "frameIntervalRef s = Some t \<and> timers s = [(t, e)] \<and> 0 < t \<and> isExtracting s"
proof (cases "frameIntervalRef s")
  case None
  with assms show ?thesis by (simp add: timer_ok_def)
next
  case (Some t')
  with assms(1) have one: "map fst (timers s) = [t']" and pos: "0 < t'" and on: "isExtracting s"
    by (simp_all add: timer_ok_def)
  from one obtain e' where ts: "timers s = [(t', e')]"
    by (cases "timers s") auto
  with assms(2) have "t' = t \<and> e' = e"
    by (simp split: if_splits)
  with Some ts pos on show ?thesis by simp
qed

lemma stopExtracting_scheduled:
  assumes "frameIntervalRef s = Some t" and "timers s = [(t, e)]" and "0 < t"
  shows "stopExtracting s = s \<lparr> timers := [], frameIntervalRef := None, isExtracting := False \<rparr>"
  using assms by (simp add: stopExtracting_def clearInterval_def)

lemma step_idle:
  assumes "timers s = []" and "\<not> is_start ev"
  shows "timers (step s ev) = [] \<and> \<not> captures s ev \<and>
         globalFrameId (step s ev) = globalFrameId s \<and>
         length (frames (step s ev)) \<le> length (frames s)"
  using assms
  by (cases ev)
     (auto simp: is_start_def captures_def handleVideoUpload_def stopExtracting_def
        clearInterval_def toggleEyeSide_def toggleFrameSelection_def fire_def media_def Let_def
        split: option.splits)

lemma run_idle:
  assumes "timers s = []" and "list_all (\<lambda>ev. \<not> is_start ev) es"
  shows "captured es s = 0 \<and> timers (run es s) = [] \<and>
         globalFrameId (run es s) = globalFrameId s \<and>
         length (frames (run es s)) \<le> length (frames s)"
  using assms
proof (induction es arbitrary: s)
  case Nil
  then show ?case by simp
next
  case (Cons ev es)
  from Cons.prems have st: "timers (step s ev) = [] \<and> \<not> captures s ev \<and>
         globalFrameId (step s ev) = globalFrameId s \<and>
         length (frames (step s ev)) \<le> length (frames s)"
    by (intro step_idle) simp_all
  from Cons.prems st have "captured es (step s ev) = 0 \<and> timers (run es (step s ev)) = [] \<and>
         globalFrameId (run es (step s ev)) = globalFrameId (step s ev) \<and>
         length (frames (run es (step s ev))) \<le> length (frames (step s ev))"
    by (intro Cons.IH) simp_all
  with st show ?case by simp
qed

lemma counter_moves_only_on_playing_video:
  "globalFrameId (step s ev) \<noteq> globalFrameId s \<Longrightarrow>
   \<exists>v. videoRef s = Some v \<and> \<not> paused v \<and> \<not> ended v"
  by (cases ev)
     (auto simp: handleVideoUpload_def stopExtracting_def extractFrames_def tick_body_def
        toggleEyeSide_def toggleFrameSelection_def fire_def media_def Let_def
        split: option.splits if_splits)


subsection \<open>Consecutive captures\<close>

lemma new_frames_length: "length (new_frames e g ticks) = length ticks"
  by (induction e g ticks rule: new_frames.induct) simp_all

lemma new_frames_ids: "map frame_id (new_frames e g ticks) = [g..<g + length ticks]"
  by (induction e g ticks rule: new_frames.induct) (simp_all add: upt_rec)

lemma new_frames_times: "map takenAt (new_frames e g ticks) = map snd ticks"
  by (induction e g ticks rule: new_frames.induct) simp_all

lemma new_frames_eyes: "map eyeSide (new_frames e g ticks) = replicate (length ticks) e"
  by (induction e g ticks rule: new_frames.induct) simp_all

lemma tick_body_playing:
  assumes "videoRef s = Some v" and "\<not> paused v" and "\<not> ended v"
  shows "tick_body e imageSrc now s =
           s \<lparr> frames := frames s @ new_frames e (globalFrameId s) [(imageSrc, now)],
               globalFrameId := globalFrameId s + 1 \<rparr>"
  using assms by (simp add: tick_body_def)

lemma run_ticks_playing:
  assumes "map_of (timers s) t = Some e" and "videoRef s = Some v"
    and "\<not> paused v" and "\<not> ended v"
  shows "run (map (\<lambda>(imageSrc, now). Tick t imageSrc now) ticks) s =
           s \<lparr> frames := frames s @ new_frames e (globalFrameId s) ticks,
               globalFrameId := globalFrameId s + length ticks \<rparr>"
  using assms
proof (induction ticks arbitrary: s)
  case Nil
  then show ?case by simp
next
  case (Cons tk ticks)
  obtain imageSrc now where tk: "tk = (imageSrc, now)" by (cases tk)
  let ?s1 = "s \<lparr> frames := frames s @ new_frames e (globalFrameId s) [(imageSrc, now)],
               globalFrameId := globalFrameId s + 1 \<rparr>"
  from Cons.prems have st: "step s (Tick t imageSrc now) = ?s1"
    by (simp add: fire_def tick_body_playing)
  from Cons.prems have "run (map (\<lambda>(imageSrc, now). Tick t imageSrc now) ticks) ?s1 =
      ?s1 \<lparr> frames := frames ?s1 @ new_frames e (globalFrameId ?s1) ticks,
           globalFrameId := globalFrameId ?s1 + length ticks \<rparr>"
    by (intro Cons.IH) simp_all
  with st tk show ?case by simp
qed


subsection \<open>The id counter\<close>

lemma step_counter:
  "globalFrameId (step s ev) = globalFrameId s + (if captures s ev then 1 else 0)"
  by (cases ev)
     (auto simp: captures_def handleVideoUpload_def stopExtracting_def extractFrames_def
        tick_body_def toggleEyeSide_def toggleFrameSelection_def fire_def media_def Let_def
        split: option.splits)

lemma run_counter: "globalFrameId (run es s) = globalFrameId s + captured es s"
  by (induction es arbitrary: s) (simp_all add: step_counter)

lemma counter_is_captured: "globalFrameId (run es init) = captured es init"
  using run_counter [of es init] by (simp add: init_def)

lemma step_first_id:
  assumes "\<not> is_upload ev"
    and "(frames s = [] \<and> globalFrameId s = g) \<or> (frames s \<noteq> [] \<and> frame_id (hd (frames s)) = g)"
  shows "(frames (step s ev) = [] \<and> globalFrameId (step s ev) = g) \<or>
         (frames (step s ev) \<noteq> [] \<and> frame_id (hd (frames (step s ev))) = g)"
  using assms
  by (cases ev)
     (auto simp: is_upload_def stopExtracting_def extractFrames_def tick_body_def
        toggleEyeSide_def toggleFrameSelection_def fire_def media_def Let_def hd_map
        split: option.splits if_splits)

lemma run_first_id:
  assumes "list_all (\<lambda>ev. \<not> is_upload ev) es"
    and "(frames s = [] \<and> globalFrameId s = g) \<or> (frames s \<noteq> [] \<and> frame_id (hd (frames s)) = g)"
  shows "(frames (run es s) = [] \<and> globalFrameId (run es s) = g) \<or>
         (frames (run es s) \<noteq> [] \<and> frame_id (hd (frames (run es s))) = g)"
  using assms
proof (induction es arbitrary: s)
  case Nil
  then show ?case by simp
next
  case (Cons ev es)
  from Cons.prems have "(frames (step s ev) = [] \<and> globalFrameId (step s ev) = g) \<or>
         (frames (step s ev) \<noteq> [] \<and> frame_id (hd (frames (step s ev))) = g)"
    by (intro step_first_id) simp_all
  with Cons.prems show ?case
    by (simp add: Cons.IH)
qed

lemma sorted_ids_above_head:
  assumes "sorted_wrt (<) (map frame_id fs)" and "fs \<noteq> []"
  shows "list_all (\<lambda>fr. frame_id (hd fs) \<le> frame_id fr) fs"
  using assms by (cases fs) (auto simp: list_all_iff less_imp_le)


subsection \<open>Numerals of small ids\<close>

lemma decimal_digits:
  "decimal 0 = ''0''" "decimal (Suc 0) = ''1''" "decimal 1 = ''1''" "decimal 2 = ''2''"
  by code_simp+


subsection \<open>Frames keep their eye side\<close>

text \<open>
  No event but a new video changes the eye side of a frame that is in the store.
\<close>

lemma eye_sides_kept:
  assumes "\<not> is_upload ev"
  shows "map eyeSide (take (length (frames s)) (frames (step s ev))) = map eyeSide (frames s)"
proof (cases ev)
  case (ClickFrame i)
  have "eyeSide \<circ> (\<lambda>frame. if frame_id frame = i
              then frame \<lparr> selected := \<not> selected frame \<rparr> else frame) = eyeSide"
    by (rule ext) simp
  with ClickFrame show ?thesis
    by (simp add: toggleFrameSelection_def)
qed (use assms in \<open>auto simp: is_upload_def stopExtracting_def extractFrames_def tick_body_def
       toggleEyeSide_def fire_def media_def Let_def split: option.splits\<close>)

section \<open>The archive that is built\<close>

lemma split_on_no_sep: "c \<notin> set xs \<Longrightarrow> split_on c xs = [xs]"
  by (induction xs) auto

lemma base64Data_of_png_data_url:
  assumes "uri frame = ''data:image/png;base64,'' @ payload" and "CHR '','' \<notin> set payload"
  shows "base64Data frame = Some payload"
  using assms by (simp add: base64Data_def index_opt_def split_on_no_sep)

lemma file_put_fresh: "name \<notin> fst ` set files \<Longrightarrow> file_put name c files = files @ [(name, c)]"
  by (induction files) auto

lemma not_OD_iff: "(e \<noteq> OD) = (e = OE)"
  by (cases e) simp_all

lemma add_frame_two_folders:
  "add_frame \<lparr> folders = [(''OD'', a), (''OE'', b)], root_files = r \<rparr> frame =
     \<lparr> folders = [(''OD'', if eyeSide frame = OD then put_frame a frame else a),
                  (''OE'', if eyeSide frame = OD then b else put_frame b frame)],
       root_files = r \<rparr>"
  by (simp add: add_frame_def folder_file_def put_frame_def)

lemma foldl_add_frame:
  "foldl add_frame \<lparr> folders = [(''OD'', a), (''OE'', b)], root_files = r \<rparr> fs =
     \<lparr> folders = [(''OD'', foldl put_frame a (filter (\<lambda>frame. eyeSide frame = OD) fs)),
                  (''OE'', foldl put_frame b (filter (\<lambda>frame. eyeSide frame = OE) fs))],
       root_files = r \<rparr>"
proof (induction fs arbitrary: a b)
  case Nil
  then show ?case by simp
next
  case (Cons frame fs)
  show ?case
    by (cases "eyeSide frame") (simp_all add: add_frame_two_folders Cons.IH)
qed

lemma foldl_put_frame_fresh:
  assumes "distinct (map fileName fs)" and "fileName ` set fs \<inter> fst ` set files = {}"
  shows "foldl put_frame files fs = files @ map frame_entry fs"
  using assms
proof (induction fs arbitrary: files)
  case Nil
  then show ?case by simp
next
  case (Cons frame fs)
  from Cons.prems(2) have fresh: "fileName frame \<notin> fst ` set files" by auto
  then have one: "put_frame files frame = files @ [frame_entry frame]"
    by (simp add: put_frame_def frame_entry_def file_put_fresh)
  from Cons.prems have "fileName ` set fs \<inter> fst ` set (files @ [frame_entry frame]) = {}"
    by (auto simp: frame_entry_def)
  with Cons.prems(1) have "foldl put_frame (files @ [frame_entry frame]) fs
      = (files @ [frame_entry frame]) @ map frame_entry fs"
    by (intro Cons.IH) simp_all
  with one show ?case by simp
qed

lemma archive_of_selected:
  assumes "filter selected fs \<noteq> []"
  shows "downloadSelectedImages fs =
           [SaveAs \<lparr> folders =
                       [(''OD'', foldl put_frame [] (filter (\<lambda>frame. eyeSide frame = OD) (filter selected fs))),
                        (''OE'', foldl put_frame [] (filter (\<lambda>frame. eyeSide frame = OE) (filter selected fs)))],
                     root_files =
                       [(''frames_info.json'', JsonText (JArray (map frame_info (filter selected fs))))] \<rparr>
              ''frames_selecionados.zip'']"
  using assms
  by (simp add: downloadSelectedImages_def Let_def zip_folder_def JSZip_new_def foldl_add_frame
        zip_file_def)

lemma no_archive_without_selection:
  "filter selected fs = [] \<Longrightarrow> downloadSelectedImages fs = [Alert NoneSelectedAllWillBeDownloaded]"
  by (simp add: downloadSelectedImages_def)

lemma framesToDownload_selected: "filter selected fs \<noteq> [] \<Longrightarrow> framesToDownload fs = filter selected fs"
  by (simp add: framesToDownload_def)

lemma framesToDownload_all: "filter selected fs = [] \<Longrightarrow> framesToDownload fs = fs"
  by (simp add: framesToDownload_def)

lemma saved_means_selected:
  "downloadSelectedImages fs = [SaveAs z name] \<Longrightarrow> filter selected fs \<noteq> []"
  by (auto simp: downloadSelectedImages_def)


subsection \<open>The example sessions, evaluated\<close>

lemma digit_chars:
  "digit_char 0 = CHR ''0''" "digit_char 1 = CHR ''1''" "digit_char 2 = CHR ''2''"
  "digit_char 3 = CHR ''3''" "digit_char 4 = CHR ''4''" "digit_char 5 = CHR ''5''"
  "digit_char 6 = CHR ''6''" "digit_char 7 = CHR ''7''" "digit_char 8 = CHR ''8''"
  "digit_char 9 = CHR ''9''" "digit_char (Suc 0) = CHR ''1''"
  by code_simp+

lemma replicate_small:
  "replicate 2 c = [c, c]" "replicate 3 c = [c, c, c]"
  by (simp_all add: numeral_2_eq_2 numeral_3_eq_3)

lemma iso_examples:
  "toISOString 1700000000000 = ''2023-11-14T22:13:20.000Z''"
  "toISOString 1700000000500 = ''2023-11-14T22:13:20.500Z''"
  by (simp_all add: toISOString_def iso_year_def ms_of_day_def pad_def civil_year_def
        civil_month_def civil_day_def day_of_era_def year_of_era_def day_of_year_def
        month_from_march_def decimal_small decimal_large digit_chars replicate_small)

lemma two_eye_frames:
  "frames (run two_eye_session init) =
     [\<lparr> frame_id = 0, uri = ''data:image/png;base64,iVBORw0KGgo='', fileName = ''frame_0_OD.png'',
        takenAt = 1700000000000, selected = True, eyeSide = OD \<rparr>,
      \<lparr> frame_id = 1, uri = ''data:image/png;base64,AAAA'', fileName = ''frame_1_OE.png'',
        takenAt = 1700000000500, selected = True, eyeSide = OE \<rparr>]"
  by (simp add: two_eye_session_def init_def handleVideoUpload_def extractFrames_def
        stopExtracting_def clearInterval_def toggleEyeSide_def toggleFrameSelection_def
        fire_def tick_body_def mk_fileName_def eye_code_def decimal_digits)

lemma one_eye_frames:
  "frames (run one_eye_session init) =
     [\<lparr> frame_id = 0, uri = ''data:image/png;base64,iVBORw0KGgo='', fileName = ''frame_0_OD.png'',
        takenAt = 1700000000000, selected = False, eyeSide = OD \<rparr>,
      \<lparr> frame_id = 1, uri = ''data:image/png;base64,AAAA'', fileName = ''frame_1_OD.png'',
        takenAt = 1700000000500, selected = True, eyeSide = OD \<rparr>]"
  by (simp add: one_eye_session_def init_def handleVideoUpload_def extractFrames_def
        toggleFrameSelection_def fire_def tick_body_def mk_fileName_def eye_code_def
        decimal_digits)

lemma other_eye_frames:
  "frames (run other_eye_session init) =
     [\<lparr> frame_id = 0, uri = ''data:image/png;base64,iVBORw0KGgo='', fileName = ''frame_0_OE.png'',
        takenAt = 1700000000000, selected = True, eyeSide = OE \<rparr>]"
  by (simp add: other_eye_session_def init_def handleVideoUpload_def extractFrames_def
        toggleEyeSide_def toggleFrameSelection_def fire_def tick_body_def mk_fileName_def
        eye_code_def decimal_digits)


section \<open>Selection toggling\<close>

text \<open>
  C7. Toggling the selection of the same id twice gives back the state it started from,
  and toggling an id that no frame of the store has leaves the state as it is.
\<close>

theorem toggleFrameSelection_twice_and_absent:
  "toggleFrameSelection i (toggleFrameSelection i s) = s \<and>
   (i \<notin> frame_id ` set (frames s) \<longrightarrow> toggleFrameSelection i s = s)"
proof
  have "map ((\<lambda>frame. if frame_id frame = i then frame \<lparr> selected := \<not> selected frame \<rparr> else frame)
          \<circ> (\<lambda>frame. if frame_id frame = i then frame \<lparr> selected := \<not> selected frame \<rparr> else frame)) fs = fs"
    for fs :: "Frame list"
    by (induction fs) auto
  then show "toggleFrameSelection i (toggleFrameSelection i s) = s"
    by (simp add: toggleFrameSelection_def)
next
  show "i \<notin> frame_id ` set (frames s) \<longrightarrow> toggleFrameSelection i s = s"
  proof
    assume absent: "i \<notin> frame_id ` set (frames s)"
    have "map (\<lambda>frame. if frame_id frame = i then frame \<lparr> selected := \<not> selected frame \<rparr> else frame)
            (frames s) = frames s"
      using absent by (intro map_idI) auto
    then show "toggleFrameSelection i s = s"
      by (simp add: toggleFrameSelection_def)
  qed
qed

theorem toggleFrameSelection_witness:
  "7 \<notin> frame_id ` set (frames (init \<lparr> frames := new_frames OD 0 [(''data:,'', 0)] \<rparr>)) \<and>
   toggleFrameSelection 7 (init \<lparr> frames := new_frames OD 0 [(''data:,'', 0)] \<rparr>)
     = init \<lparr> frames := new_frames OD 0 [(''data:,'', 0)] \<rparr> \<and>
   toggleFrameSelection 0 (toggleFrameSelection 0 (init \<lparr> frames := new_frames OD 0 [(''data:,'', 0)] \<rparr>))
     = init \<lparr> frames := new_frames OD 0 [(''data:,'', 0)] \<rparr>"
  using toggleFrameSelection_twice_and_absent
          [of 7 "init \<lparr> frames := new_frames OD 0 [(''data:,'', 0)] \<rparr>"]
        toggleFrameSelection_twice_and_absent
          [of 0 "init \<lparr> frames := new_frames OD 0 [(''data:,'', 0)] \<rparr>"]
  by simp

section \<open>Starting while capture runs\<close>

text \<open>
  \<open>extractFrames\<close> has no guard of its own: applied to a state in which capture runs,
  it schedules a second timer and overwrites the handle of the first.
\<close>

theorem extractFrames_while_running_counterexample:
  "isExtracting (run [Upload (Some ''v.mp4''), ClickStart] init) \<and>
   extractFrames (run [Upload (Some ''v.mp4''), ClickStart] init)
     \<noteq> run [Upload (Some ''v.mp4''), ClickStart] init \<and>
   timers (extractFrames (run [Upload (Some ''v.mp4''), ClickStart] init)) = [(1, OD), (2, OD)] \<and>
   frameIntervalRef (run [Upload (Some ''v.mp4''), ClickStart] init) = Some 1 \<and>
   frameIntervalRef (extractFrames (run [Upload (Some ''v.mp4''), ClickStart] init)) = Some 2"
  by (simp add: init_def handleVideoUpload_def extractFrames_def)

text \<open>
  C3. The guard is the start button, which is disabled while \<open>isExtracting\<close>: a click on
  it while capture runs leaves the state as it is, and in every state a session reaches at
  most one timer is scheduled.
\<close>

theorem start_click_while_running_is_noop:
  "length (timers (run es init)) \<le> 1 \<and>
   (isExtracting (run es init) \<longrightarrow> step (run es init) ClickStart = run es init)"
  using timer_ok_at_most_one [OF timer_ok_reachable] by simp

theorem start_click_while_running_witness:
  "isExtracting (run [Upload (Some ''v.mp4''), ClickStart] init) \<and>
   step (run [Upload (Some ''v.mp4''), ClickStart] init) ClickStart
     = run [Upload (Some ''v.mp4''), ClickStart] init \<and>
   length (timers (run [Upload (Some ''v.mp4''), ClickStart] init)) \<le> 1"
proof -
  have on: "isExtracting (run [Upload (Some ''v.mp4''), ClickStart] init)"
    by (simp add: init_def handleVideoUpload_def extractFrames_def)
  with start_click_while_running_is_noop [of "[Upload (Some ''v.mp4''), ClickStart]"]
  show ?thesis by blast
qed

section \<open>Ticks on a paused or ended video\<close>

text \<open>
  C8. In a state a session reaches, when the scheduled timer fires while the video is
  paused or has ended, the timer is cancelled, the running flag is cleared and the store
  and the counter are as before; until a start is clicked no later event captures a
  frame. Whenever an event advances the counter, the video is neither paused nor ended.
\<close>

theorem paused_or_ended_tick_stops:
  assumes "s = run es init"
    and "map_of (timers s) t = Some e"
    and "videoRef s = Some v"
    and "paused v \<or> ended v"
    and "s' = step s (Tick t imageSrc now)"
  shows "timers s' = [] \<and> frameIntervalRef s' = None \<and> \<not> isExtracting s' \<and>
         frames s' = frames s \<and> globalFrameId s' = globalFrameId s \<and>
         (list_all (\<lambda>ev. \<not> is_start ev) es' \<longrightarrow>
            captured es' s' = 0 \<and> timers (run es' s') = [] \<and>
            globalFrameId (run es' s') = globalFrameId s' \<and>
            length (frames (run es' s')) \<le> length (frames s')) \<and>
         (\<forall>s0 ev. globalFrameId (step s0 ev) \<noteq> globalFrameId s0 \<longrightarrow>
            (\<exists>v0. videoRef s0 = Some v0 \<and> \<not> paused v0 \<and> \<not> ended v0))"
proof -
  from assms(1) have "timer_ok s" by (simp add: timer_ok_reachable)
  from timer_ok_scheduled [OF this assms(2)]
  have sched: "frameIntervalRef s = Some t" "timers s = [(t, e)]" "0 < t" by simp_all
  from assms(2,3,4,5) have "s' = stopExtracting s"
    by (auto simp: fire_def tick_body_def)
  with stopExtracting_scheduled [OF sched]
  have s': "s' = s \<lparr> timers := [], frameIntervalRef := None, isExtracting := False \<rparr>" by simp
  then have idle: "timers s' = []" by simp
  from s' have now: "timers s' = [] \<and> frameIntervalRef s' = None \<and> \<not> isExtracting s' \<and>
         frames s' = frames s \<and> globalFrameId s' = globalFrameId s" by simp
  have later: "list_all (\<lambda>ev. \<not> is_start ev) es' \<longrightarrow>
            captured es' s' = 0 \<and> timers (run es' s') = [] \<and>
            globalFrameId (run es' s') = globalFrameId s' \<and>
            length (frames (run es' s')) \<le> length (frames s')"
    using run_idle [OF idle] by blast
  from now later counter_moves_only_on_playing_video show ?thesis by blast
qed

theorem paused_or_ended_tick_witness:
  "map_of (timers (run [Upload (Some ''v.mp4''), ClickStart, Tick 1 ''data:,'' 0, Media True False] init)) 1
     = Some OD \<and>
   videoRef (run [Upload (Some ''v.mp4''), ClickStart, Tick 1 ''data:,'' 0, Media True False] init)
     = Some \<lparr> src = Some ''v.mp4'', paused = True, ended = False, muted = True \<rparr> \<and>
   list_all (\<lambda>ev. \<not> is_start ev) [Tick 1 ''data:,'' 1000, ClickEye] \<and>
   timers (run [Upload (Some ''v.mp4''), ClickStart, Tick 1 ''data:,'' 0, Media True False,
                Tick 1 ''data:,'' 500] init) = [] \<and>
   \<not> isExtracting (run [Upload (Some ''v.mp4''), ClickStart, Tick 1 ''data:,'' 0, Media True False,
                Tick 1 ''data:,'' 500] init) \<and>
   length (frames (run [Upload (Some ''v.mp4''), ClickStart, Tick 1 ''data:,'' 0, Media True False,
                Tick 1 ''data:,'' 500] init)) = 1 \<and>
   captured [Tick 1 ''data:,'' 1000, ClickEye]
     (run [Upload (Some ''v.mp4''), ClickStart, Tick 1 ''data:,'' 0, Media True False,
           Tick 1 ''data:,'' 500] init) = 0"
proof -
  let ?es = "[Upload (Some ''v.mp4''), ClickStart, Tick 1 ''data:,'' 0, Media True False]"
  let ?v = "\<lparr> src = Some ''v.mp4'', paused = True, ended = False, muted = True \<rparr>"
  have t: "map_of (timers (run ?es init)) 1 = Some OD"
    by (simp add: init_def handleVideoUpload_def extractFrames_def fire_def tick_body_def media_def)
  have v: "videoRef (run ?es init) = Some ?v"
    by (simp add: init_def handleVideoUpload_def extractFrames_def fire_def tick_body_def media_def)
  have p: "paused ?v \<or> ended ?v" by simp
  have l: "list_all (\<lambda>ev. \<not> is_start ev) [Tick 1 ''data:,'' 1000, ClickEye]"
    by (simp add: is_start_def)
  have n: "length (frames (run ?es init)) = 1"
    by (simp add: init_def handleVideoUpload_def extractFrames_def fire_def tick_body_def media_def)
  have r: "run (?es @ [Tick 1 ''data:,'' 500]) init = step (run ?es init) (Tick 1 ''data:,'' 500)"
    by (simp only: run_append run_Cons run_Nil)
  from paused_or_ended_tick_stops [OF refl t v p refl, of "''data:,''" 500 "[Tick 1 ''data:,'' 1000, ClickEye]"]
    t v l n r
  show ?thesis by simp
qed

section \<open>Ticks of a fresh session\<close>

text \<open>
  The timestamp of a frame is what \<open>new Date()\<close> reads at its tick, and the wall clock
  can be set back between two ticks: with the readings 1000 and 999 the second frame of
  a fresh session has the earlier timestamp.
\<close>

theorem fresh_session_timestamps_counterexample:
  "frameIntervalRef (run [Upload (Some ''v.mp4''), ClickStart] init) = Some 1 \<and>
   map frame_id (frames (run [Tick 1 ''data:,'' 1000, Tick 1 ''data:,'' 999]
                          (run [Upload (Some ''v.mp4''), ClickStart] init))) = [0, 1] \<and>
   map takenAt (frames (run [Tick 1 ''data:,'' 1000, Tick 1 ''data:,'' 999]
                         (run [Upload (Some ''v.mp4''), ClickStart] init))) = [1000, 999] \<and>
   \<not> sorted (map takenAt (frames (run [Tick 1 ''data:,'' 1000, Tick 1 ''data:,'' 999]
                                 (run [Upload (Some ''v.mp4''), ClickStart] init))))"
  by (simp add: init_def handleVideoUpload_def extractFrames_def fire_def tick_body_def)

text \<open>
  C4. In a fresh session (a video is loaded and capture is started), \<open>N\<close> firings of the
  timer on the playing video leave exactly \<open>N\<close> frames in the store, with the ids
  \<open>0..N-1\<close> in capture order, increasing and distinct. The timestamps of the frames are
  the clock readings of their ticks, in tick order; they are non-decreasing exactly when
  those readings are.
\<close>

theorem fresh_session_ticks:
  assumes "s0 = run [Upload (Some f), ClickStart] init"
    and "frameIntervalRef s0 = Some t"
    and "s = run (map (\<lambda>(imageSrc, now). Tick t imageSrc now) ticks) s0"
  shows "length (frames s) = length ticks \<and>
         map frame_id (frames s) = [0..<length ticks] \<and>
         sorted_wrt (<) (map frame_id (frames s)) \<and>
         distinct (map frame_id (frames s)) \<and>
         map takenAt (frames s) = map snd ticks \<and>
         sorted (map takenAt (frames s)) = sorted (map snd ticks)"
proof -
  from assms(1) have s0: "s0 = init \<lparr> videoFile := Some f,
      videoRef := Some \<lparr> src = Some f, paused = False, ended = False, muted = True \<rparr>,
      isExtracting := True, timers := [(1, OD)], frameIntervalRef := Some 1, nextTimerId := 2 \<rparr>"
    by (simp add: init_def handleVideoUpload_def extractFrames_def)
  with assms(2) have t: "t = 1" by simp
  from s0 t have sched: "map_of (timers s0) t = Some OD"
    and v: "videoRef s0 = Some \<lparr> src = Some f, paused = False, ended = False, muted = True \<rparr>"
    and fresh: "frames s0 = []" "globalFrameId s0 = 0"
    by (simp_all add: init_def)
  from run_ticks_playing [OF sched v, of ticks] assms(3) fresh
  have "frames s = new_frames OD 0 ticks" by simp
  then show ?thesis
    by (simp add: new_frames_length new_frames_ids new_frames_times)
qed

theorem fresh_session_ticks_witness:
  "frameIntervalRef (run [Upload (Some ''v.mp4''), ClickStart] init) = Some 1 \<and>
   map frame_id (frames (run (map (\<lambda>(imageSrc, now). Tick 1 imageSrc now)
                        [(''data:,'', 1000), (''data:,'', 1500), (''data:,'', 1500)])
                   (run [Upload (Some ''v.mp4''), ClickStart] init))) = [0, 1, 2] \<and>
   map takenAt (frames (run (map (\<lambda>(imageSrc, now). Tick 1 imageSrc now)
                        [(''data:,'', 1000), (''data:,'', 1500), (''data:,'', 1500)])
                   (run [Upload (Some ''v.mp4''), ClickStart] init))) = [1000, 1500, 1500] \<and>
   sorted (map takenAt (frames (run (map (\<lambda>(imageSrc, now). Tick 1 imageSrc now)
                        [(''data:,'', 1000), (''data:,'', 1500), (''data:,'', 1500)])
                   (run [Upload (Some ''v.mp4''), ClickStart] init))))"
proof -
  have h: "frameIntervalRef (run [Upload (Some ''v.mp4''), ClickStart] init) = Some 1"
    by (simp add: init_def handleVideoUpload_def extractFrames_def)
  have u: "[0..<3] = [0, 1, 2::nat]" by (simp add: upt_rec)
  from fresh_session_ticks [OF refl h refl,
         of "[(''data:,'', 1000), (''data:,'', 1500), (''data:,'', 1500)]"] h u
  show ?thesis by simp
qed

section \<open>The id counter across videos\<close>

text \<open>
  C9. Loading a new video empties the store and leaves the counter where it is, at the
  number of frames captured since the page was loaded. Every frame of the earlier store
  has an id below that number, every frame captured after the load has an id from that
  number on, and the first of them has exactly that number as its id.
\<close>

theorem new_video_keeps_counter:
  assumes "s1 = run (es @ [Upload (Some f)]) init"
    and "list_all (\<lambda>ev. \<not> is_upload ev) es'"
    and "s2 = run es' s1"
  shows "frames s1 = [] \<and> globalFrameId s1 = captured es init \<and>
         list_all (\<lambda>fr. frame_id fr < captured es init) (frames (run es init)) \<and>
         list_all (\<lambda>fr. captured es init \<le> frame_id fr) (frames s2) \<and>
         (frames s2 \<noteq> [] \<longrightarrow> frame_id (hd (frames s2)) = captured es init)"
proof -
  from assms(1) have s1: "s1 = handleVideoUpload (Some f) (run es init)"
    by (simp add: run_append)
  then have empty: "frames s1 = []" and g: "globalFrameId s1 = captured es init"
    by (simp_all add: handleVideoUpload_def counter_is_captured)
  have before: "list_all (\<lambda>fr. frame_id fr < captured es init) (frames (run es init))"
    using frames_ok_reachable [of es]
    by (simp add: frames_ok_def counter_is_captured list_all_iff)
  from run_first_id [OF assms(2), of s1 "captured es init"] empty g assms(3)
  have first: "(frames s2 = [] \<and> globalFrameId s2 = captured es init) \<or>
         (frames s2 \<noteq> [] \<and> frame_id (hd (frames s2)) = captured es init)"
    by simp
  from assms(1,3) have "s2 = run ((es @ [Upload (Some f)]) @ es') init"
    by (simp only: run_append)
  then have "sorted_wrt (<) (map frame_id (frames s2))"
    using frames_ok_reachable by (simp add: frames_ok_def)
  with first have after: "list_all (\<lambda>fr. captured es init \<le> frame_id fr) (frames s2)"
    using sorted_ids_above_head [of "frames s2"] by auto
  from empty g before after first show ?thesis by blast
qed

theorem new_video_keeps_counter_witness:
  "list_all (\<lambda>ev. \<not> is_upload ev) [Tick 1 ''data:,'' 1500, ClickStart, Tick 2 ''data:,'' 2000] \<and>
   captured [Upload (Some ''a.mp4''), ClickStart, Tick 1 ''data:,'' 500, Tick 1 ''data:,'' 1000] init = 2 \<and>
   frames (run ([Upload (Some ''a.mp4''), ClickStart, Tick 1 ''data:,'' 500, Tick 1 ''data:,'' 1000]
                @ [Upload (Some ''b.mp4'')]) init) = [] \<and>
   map frame_id (frames (run [Tick 1 ''data:,'' 1500, ClickStart, Tick 2 ''data:,'' 2000]
      (run ([Upload (Some ''a.mp4''), ClickStart, Tick 1 ''data:,'' 500, Tick 1 ''data:,'' 1000]
                @ [Upload (Some ''b.mp4'')]) init))) = [2] \<and>
   frame_id (hd (frames (run [Tick 1 ''data:,'' 1500, ClickStart, Tick 2 ''data:,'' 2000]
      (run ([Upload (Some ''a.mp4''), ClickStart, Tick 1 ''data:,'' 500, Tick 1 ''data:,'' 1000]
                @ [Upload (Some ''b.mp4'')]) init)))) = 2"
proof -
  let ?es = "[Upload (Some ''a.mp4''), ClickStart, Tick 1 ''data:,'' 500, Tick 1 ''data:,'' 1000]"
  let ?es' = "[Tick 1 ''data:,'' 1500, ClickStart, Tick 2 ''data:,'' 2000]"
  have l: "list_all (\<lambda>ev. \<not> is_upload ev) ?es'"
    by (simp add: is_upload_def)
  have c: "captured ?es init = 2"
    by (simp add: init_def handleVideoUpload_def extractFrames_def fire_def tick_body_def
          captures_def)
  have ids: "map frame_id (frames (run ?es' (run (?es @ [Upload (Some ''b.mp4'')]) init))) = [2]"
    by (simp add: init_def handleVideoUpload_def extractFrames_def fire_def tick_body_def
          stopExtracting_def clearInterval_def mk_fileName_def)
  then have ne: "frames (run ?es' (run (?es @ [Upload (Some ''b.mp4'')]) init)) \<noteq> []"
    by auto
  from new_video_keeps_counter [OF refl l refl, of ?es "''b.mp4''"] l c ids ne
  show ?thesis by simp
qed

section \<open>Export with nothing selected\<close>

text \<open>
  C1. With one frame captured and none selected, \<open>downloadSelectedImages\<close> shows its
  notice (which announces that all images will be downloaded) and returns: no archive is
  saved. \<open>downloadAllImages\<close> on the same store downloads the frame.
\<close>

theorem archive_export_aborts_when_none_selected:
  "frames (run [Upload (Some ''v.mp4''), ClickStart, Tick 1 ''data:image/png;base64,iVBORw0KGgo='' 1000] init)
     = [\<lparr> frame_id = 0, uri = ''data:image/png;base64,iVBORw0KGgo='', fileName = ''frame_0_OD.png'',
          takenAt = 1000, selected = False, eyeSide = OD \<rparr>] \<and>
   downloadSelectedImages
     [\<lparr> frame_id = 0, uri = ''data:image/png;base64,iVBORw0KGgo='', fileName = ''frame_0_OD.png'',
        takenAt = 1000, selected = False, eyeSide = OD \<rparr>]
     = [Alert NoneSelectedAllWillBeDownloaded] \<and>
   downloadAllImages
     [\<lparr> frame_id = 0, uri = ''data:image/png;base64,iVBORw0KGgo='', fileName = ''frame_0_OD.png'',
        takenAt = 1000, selected = False, eyeSide = OD \<rparr>]
     = [Alert (ImagesWillBeDownloaded 1),
        LinkClick ''data:image/png;base64,iVBORw0KGgo='' ''frame_0_OD.png'']"
  by (simp add: init_def handleVideoUpload_def extractFrames_def fire_def tick_body_def
        mk_fileName_def eye_code_def decimal_digits
        downloadSelectedImages_def downloadAllImages_def framesToDownload_def)

section \<open>The eye side of a running capture\<close>

text \<open>
  C2. The callback of the timer keeps the \<open>eyeSide\<close> that \<open>extractFrames\<close> closed over
  when capture was started. After a click on the eye button between two ticks the state
  cell holds \<open>OE\<close>, and the frame of the second tick is still tagged and named \<open>OD\<close>.
  (That the frames already in the store keep their eye side is \<open>eye_sides_kept\<close>.)
\<close>

theorem eye_toggle_during_capture_is_not_read:
  "eyeSide_state (run [Upload (Some ''v.mp4''), ClickStart, Tick 1 ''data:,'' 1000, ClickEye,
                       Tick 1 ''data:,'' 1500] init) = OE \<and>
   map eyeSide (frames (run [Upload (Some ''v.mp4''), ClickStart, Tick 1 ''data:,'' 1000, ClickEye,
                       Tick 1 ''data:,'' 1500] init)) = [OD, OD] \<and>
   map fileName (frames (run [Upload (Some ''v.mp4''), ClickStart, Tick 1 ''data:,'' 1000, ClickEye,
                       Tick 1 ''data:,'' 1500] init)) = [''frame_0_OD.png'', ''frame_1_OD.png'']"
  by (simp add: init_def handleVideoUpload_def extractFrames_def fire_def tick_body_def
        toggleEyeSide_def mk_fileName_def eye_code_def decimal_digits)

section \<open>Layout of the archive\<close>

text \<open>
  C5. For the store of any state a session reaches, with a frame selected, the archive
  export saves one archive under the name \<open>frames_selecionados.zip\<close>. The archive has the
  two top-level folders \<open>OD\<close> and \<open>OE\<close>; each holds, for the frames of the export set
  with that eye side and in their order, the image data of the frame (the base64 text of
  its data URL) under the frame's file name; and the root holds the single file
  \<open>frames_info.json\<close>.
\<close>

theorem archive_export_layout:
  assumes "fs = frames (run es init)" and "filter selected fs \<noteq> []"
  shows "downloadSelectedImages fs =
           [SaveAs \<lparr> folders = [(''OD'', folder_entries OD (framesToDownload fs)),
                                (''OE'', folder_entries OE (framesToDownload fs))],
                     root_files =
                       [(''frames_info.json'', JsonText (JArray (map frame_info (framesToDownload fs))))] \<rparr>
              ''frames_selecionados.zip'']"
proof -
  from assms(1) have "distinct (map fileName fs)"
    by (simp add: frames_ok_distinct_names frames_ok_reachable)
  then have d: "distinct (map fileName (filter (\<lambda>frame. eyeSide frame = e) (filter selected fs)))" for e
    by (simp add: distinct_map_filter)
  have "foldl put_frame [] (filter (\<lambda>frame. eyeSide frame = e) (filter selected fs))
          = folder_entries e (filter selected fs)" for e
    using foldl_put_frame_fresh [where files = "[]", OF d] by (simp add: folder_entries_def)
  with archive_of_selected [OF assms(2)] framesToDownload_selected [OF assms(2)]
  show ?thesis by simp
qed

theorem archive_export_layout_witness:
  "filter selected (frames (run two_eye_session init)) \<noteq> [] \<and>
   downloadSelectedImages (frames (run two_eye_session init)) =
     [SaveAs \<lparr> folders = [(''OD'', [(''frame_0_OD.png'', Base64 (Some ''iVBORw0KGgo=''))]),
                          (''OE'', [(''frame_1_OE.png'', Base64 (Some ''AAAA''))])],
               root_files =
                 [(''frames_info.json'',
                   JsonText (JArray
                     [JObject [(''id'', JNumber 0), (''fileName'', JString ''frame_0_OD.png''),
                               (''eyeSide'', JString ''OD''),
                               (''takenAt'', JString ''2023-11-14T22:13:20.000Z'')],
                      JObject [(''id'', JNumber 1), (''fileName'', JString ''frame_1_OE.png''),
                               (''eyeSide'', JString ''OE''),
                               (''takenAt'', JString ''2023-11-14T22:13:20.500Z'')]]))] \<rparr>
        ''frames_selecionados.zip'']"
proof -
  have sel: "filter selected (frames (run two_eye_session init)) \<noteq> []"
    by (simp add: two_eye_frames)
  from archive_export_layout [OF refl sel] sel show ?thesis
    by (simp add: two_eye_frames framesToDownload_def folder_entries_def frame_entry_def
          base64Data_def index_opt_def frame_info_def eye_code_def iso_examples)
qed

section \<open>The manifest\<close>

text \<open>
  C6. Whenever the archive export saves an archive, the only file at its root is
  \<open>frames_info.json\<close>, the JSON text of an array that has, for every frame of the export
  set and in the order of the export set, the object with the keys \<open>id\<close> (the number),
  \<open>fileName\<close> (the string), \<open>eyeSide\<close> (\<open>"OD"\<close> or \<open>"OE"\<close>) and \<open>takenAt\<close> (the ISO string
  of the capture time), in this order.
\<close>

theorem manifest_of_archive:
  assumes "downloadSelectedImages fs = [SaveAs z name]"
  shows "root_files z =
           [(''frames_info.json'',
             JsonText (JArray (map (\<lambda>frame.
               JObject [(''id'', JNumber (frame_id frame)),
                        (''fileName'', JString (fileName frame)),
                        (''eyeSide'', JString (case eyeSide frame of OD \<Rightarrow> ''OD'' | OE \<Rightarrow> ''OE'')),
                        (''takenAt'', JString (toISOString (takenAt frame)))])
               (framesToDownload fs))))]"
proof -
  from assms have sel: "filter selected fs \<noteq> []" by (rule saved_means_selected)
  from archive_of_selected [OF sel] assms framesToDownload_selected [OF sel]
  have "root_files z = [(''frames_info.json'', JsonText (JArray (map frame_info (framesToDownload fs))))]"
    by auto
  moreover have "frame_info = (\<lambda>frame.
               JObject [(''id'', JNumber (frame_id frame)),
                        (''fileName'', JString (fileName frame)),
                        (''eyeSide'', JString (case eyeSide frame of OD \<Rightarrow> ''OD'' | OE \<Rightarrow> ''OE'')),
                        (''takenAt'', JString (toISOString (takenAt frame)))])"
    by (rule ext) (simp add: frame_info_def eye_code_def)
  ultimately show ?thesis by simp
qed

theorem manifest_of_archive_witness:
  "downloadSelectedImages (frames (run one_eye_session init)) =
     [SaveAs \<lparr> folders = [(''OD'', [(''frame_1_OD.png'', Base64 (Some ''AAAA''))]), (''OE'', [])],
               root_files =
                 [(''frames_info.json'',
                   JsonText (JArray
                     [JObject [(''id'', JNumber 1), (''fileName'', JString ''frame_1_OD.png''),
                               (''eyeSide'', JString ''OD''),
                               (''takenAt'', JString ''2023-11-14T22:13:20.500Z'')]]))] \<rparr>
        ''frames_selecionados.zip''] \<and>
   root_files \<lparr> folders = [(''OD'', [(''frame_1_OD.png'', Base64 (Some ''AAAA''))]), (''OE'', [])],
               root_files =
                 [(''frames_info.json'',
                   JsonText (JArray
                     [JObject [(''id'', JNumber 1), (''fileName'', JString ''frame_1_OD.png''),
                               (''eyeSide'', JString ''OD''),
                               (''takenAt'', JString ''2023-11-14T22:13:20.500Z'')]]))] \<rparr> =
     [(''frames_info.json'',
       JsonText (JArray
         (map (\<lambda>frame.
               JObject [(''id'', JNumber (frame_id frame)),
                        (''fileName'', JString (fileName frame)),
                        (''eyeSide'', JString (case eyeSide frame of OD \<Rightarrow> ''OD'' | OE \<Rightarrow> ''OE'')),
                        (''takenAt'', JString (toISOString (takenAt frame)))])
            (framesToDownload (frames (run one_eye_session init))))))]"
proof -
  have saved: "downloadSelectedImages (frames (run one_eye_session init)) =
     [SaveAs \<lparr> folders = [(''OD'', [(''frame_1_OD.png'', Base64 (Some ''AAAA''))]), (''OE'', [])],
               root_files =
                 [(''frames_info.json'',
                   JsonText (JArray
                     [JObject [(''id'', JNumber 1), (''fileName'', JString ''frame_1_OD.png''),
                               (''eyeSide'', JString ''OD''),
                               (''takenAt'', JString ''2023-11-14T22:13:20.500Z'')]]))] \<rparr>
        ''frames_selecionados.zip'']"
    by (simp add: one_eye_frames downloadSelectedImages_def Let_def zip_folder_def JSZip_new_def
          add_frame_def folder_file_def zip_file_def base64Data_def index_opt_def
          frame_info_def eye_code_def iso_examples)
  from manifest_of_archive [OF saved] saved show ?thesis
    by simp
qed

section \<open>Both folders are always there\<close>

text \<open>
  C10. Whenever the archive export saves an archive, its top-level folders are \<open>OD\<close> and
  \<open>OE\<close>, both; when every frame of the export set has the same eye side, the folder of
  the other eye side is there and empty.
\<close>

theorem archive_has_both_folders:
  assumes "downloadSelectedImages fs = [SaveAs z name]"
  shows "map fst (folders z) = [''OD'', ''OE''] \<and>
         (list_all (\<lambda>frame. eyeSide frame = OD) (framesToDownload fs) \<longrightarrow>
            map_of (folders z) ''OE'' = Some []) \<and>
         (list_all (\<lambda>frame. eyeSide frame = OE) (framesToDownload fs) \<longrightarrow>
            map_of (folders z) ''OD'' = Some [])"
proof -
  from assms have sel: "filter selected fs \<noteq> []" by (rule saved_means_selected)
  let ?sel = "filter selected fs"
  from archive_of_selected [OF sel] assms
  have z: "folders z =
             [(''OD'', foldl put_frame [] (filter (\<lambda>frame. eyeSide frame = OD) ?sel)),
              (''OE'', foldl put_frame [] (filter (\<lambda>frame. eyeSide frame = OE) ?sel))]"
    by auto
  have od: "filter (\<lambda>frame. eyeSide frame = OE) ?sel = []"
    if "list_all (\<lambda>frame. eyeSide frame = OD) ?sel"
    using that by (auto simp: list_all_iff filter_empty_conv)
  have oe: "filter (\<lambda>frame. eyeSide frame = OD) ?sel = []"
    if "list_all (\<lambda>frame. eyeSide frame = OE) ?sel"
    using that by (auto simp: list_all_iff filter_empty_conv)
  from z od oe framesToDownload_selected [OF sel] show ?thesis by simp
qed
theorem archive_has_both_folders_witness:
  "downloadSelectedImages (frames (run other_eye_session init)) =
     [SaveAs \<lparr> folders = [(''OD'', []), (''OE'', [(''frame_0_OE.png'', Base64 (Some ''iVBORw0KGgo=''))])],
               root_files =
                 [(''frames_info.json'',
                   JsonText (JArray
                     [JObject [(''id'', JNumber 0), (''fileName'', JString ''frame_0_OE.png''),
                               (''eyeSide'', JString ''OE''),
                               (''takenAt'', JString ''2023-11-14T22:13:20.000Z'')]]))] \<rparr>
        ''frames_selecionados.zip''] \<and>
   list_all (\<lambda>frame. eyeSide frame = OE) (framesToDownload (frames (run other_eye_session init))) \<and>
   map fst (folders
     \<lparr> folders = [(''OD'', []), (''OE'', [(''frame_0_OE.png'', Base64 (Some ''iVBORw0KGgo=''))])],
       root_files =
         [(''frames_info.json'',
           JsonText (JArray
             [JObject [(''id'', JNumber 0), (''fileName'', JString ''frame_0_OE.png''),
                       (''eyeSide'', JString ''OE''),
                       (''takenAt'', JString ''2023-11-14T22:13:20.000Z'')]]))] \<rparr>) = [''OD'', ''OE''] \<and>
   map_of (folders
     \<lparr> folders = [(''OD'', []), (''OE'', [(''frame_0_OE.png'', Base64 (Some ''iVBORw0KGgo=''))])],
       root_files =
         [(''frames_info.json'',
           JsonText (JArray
             [JObject [(''id'', JNumber 0), (''fileName'', JString ''frame_0_OE.png''),
                       (''eyeSide'', JString ''OE''),
                       (''takenAt'', JString ''2023-11-14T22:13:20.000Z'')]]))] \<rparr>) ''OD'' = Some []"
proof -
  have saved: "downloadSelectedImages (frames (run other_eye_session init)) =
     [SaveAs \<lparr> folders = [(''OD'', []), (''OE'', [(''frame_0_OE.png'', Base64 (Some ''iVBORw0KGgo=''))])],
               root_files =
                 [(''frames_info.json'',
                   JsonText (JArray
                     [JObject [(''id'', JNumber 0), (''fileName'', JString ''frame_0_OE.png''),
                               (''eyeSide'', JString ''OE''),
                               (''takenAt'', JString ''2023-11-14T22:13:20.000Z'')]]))] \<rparr>
        ''frames_selecionados.zip'']"
    by (simp add: other_eye_frames downloadSelectedImages_def Let_def zip_folder_def JSZip_new_def
          add_frame_def folder_file_def zip_file_def base64Data_def index_opt_def
          frame_info_def eye_code_def iso_examples)
  have all_oe: "list_all (\<lambda>frame. eyeSide frame = OE)
                  (framesToDownload (frames (run other_eye_session init)))"
    by (simp add: other_eye_frames framesToDownload_def)
  from archive_has_both_folders [OF saved] saved all_oe show ?thesis
    by blast
qed

end
